theory Spec2Isabelle
  imports Main "HOL-Library.Log_Nat"
begin

unbundle bit_operations_syntax

section \<open>Python values and exceptions\<close>

text \<open>
  The exceptions the decomposition and the collective file channel of
  \<^verbatim>\<open>lyncs_io/mpi_io.py\<close> can raise. \<open>MPIException\<close> stands for a failure of an
  MPI call itself (the platform layer).
\<close>

datatype error =
    ValueError
  | NotImplementedError
  | IndexError
  | KeyError
  | ZeroDivisionError
  | OverflowError
  | AttributeError
  | TypeError
  | MPIException

text \<open>
  The values a caller can pass in \<open>domain\<close> and for \<open>workers\<close> and \<open>id\<close>: a Python
  \<open>int\<close> (unbounded), a finite \<open>float\<close> \<open>PFloat m e\<close> of value \<open>m * 2 ^ e\<close>, a \<open>str\<close>,
  or a \<open>complex\<close> (given by its real and imaginary part). A \<open>bool\<close> is an \<open>int\<close> in
  Python (\<open>isinstance(True, int)\<close>), so it is \<open>PInt 0\<close> or \<open>PInt 1\<close>. \<open>None\<close> for
  \<open>workers\<close> or \<open>id\<close> is the omitted argument of \<open>decompose\<close> and is modelled there;
  objects of other types are left out.
\<close>

datatype pyval = PInt int | PFloat int int | PStr string | PComplex int int

fun is_number :: "pyval \<Rightarrow> bool" where
  "is_number (PInt a) = True"
| "is_number (PFloat m e) = True"
| "is_number (PStr s) = False"
| "is_number (PComplex re im) = False"

fun is_str :: "pyval \<Rightarrow> bool" where
  "is_str (PStr s) = True"
| "is_str (PInt a) = False"
| "is_str (PFloat m e) = False"
| "is_str (PComplex re im) = False"

text \<open>Mantissa and exponent of a number (0 for the other values).\<close>

fun py_mantissa :: "pyval \<Rightarrow> int" where
  "py_mantissa (PInt a) = a"
| "py_mantissa (PFloat m e) = m"
| "py_mantissa (PStr s) = 0"
| "py_mantissa (PComplex re im) = 0"

fun py_exponent :: "pyval \<Rightarrow> int" where
  "py_exponent (PInt a) = 0"
| "py_exponent (PFloat m e) = e"
| "py_exponent (PStr s) = 0"
| "py_exponent (PComplex re im) = 0"

text \<open>\<open>isinstance(x, int)\<close>.\<close>

fun isinstance_int :: "pyval \<Rightarrow> bool" where
  "isinstance_int (PInt a) = True"
| "isinstance_int (PFloat m e) = False"
| "isinstance_int (PStr s) = False"
| "isinstance_int (PComplex re im) = False"

text \<open>
  Python's \<open>x < y\<close>. Two numbers are compared by their exact values, also an int with a
  float; two strings are compared character by character; every other pair of these
  values has no ordering and the comparison raises \<open>TypeError\<close>.
\<close>

definition num_lt :: "pyval \<Rightarrow> pyval \<Rightarrow> bool" where
  "num_lt x y =
     (let k = min (py_exponent x) (py_exponent y)
      in py_mantissa x * 2 ^ nat (py_exponent x - k) < py_mantissa y * 2 ^ nat (py_exponent y - k))"

fun str_lt :: "string \<Rightarrow> string \<Rightarrow> bool" where
  "str_lt [] [] = False"
| "str_lt [] (y # ys) = True"
| "str_lt (x # xs) [] = False"
| "str_lt (x # xs) (y # ys) =
     (if (of_char x :: nat) < of_char y then True
      else if (of_char y :: nat) < of_char x then False
      else str_lt xs ys)"

definition py_lt :: "pyval \<Rightarrow> pyval \<Rightarrow> error + bool" where
  "py_lt x y =
     (if is_number x \<and> is_number y then Inr (num_lt x y)
      else if is_str x \<and> is_str y
           then (case (x, y) of
                   (PStr a, PStr b) \<Rightarrow> Inr (str_lt a b)
                 | _ \<Rightarrow> Inl TypeError)
      else Inl TypeError)"

section \<open>True division of integers and truncation\<close>

text \<open>
  \<open>load / workers\<close> on two Python ints is true division: the result is the binary64
  number nearest to the exact quotient, ties to even, \<open>ZeroDivisionError\<close> for a zero
  divisor and \<open>OverflowError\<close> when the rounded quotient is 2^1024 or more. A binary64
  number has 53 significant bits and its last bit weighs at least 2^-1074. The float
  is kept as mantissa and exponent, so that everything is computed on integers:
  \<open>a / (b * 2^e)\<close> is the fraction \<open>scale_num a e / scale_den b e\<close> (\<open>nat\<close> of a negative
  integer is 0).
\<close>

definition scale_num :: "int \<Rightarrow> int \<Rightarrow> int" where
  "scale_num a e = a * 2 ^ nat (- e)"

definition scale_den :: "int \<Rightarrow> int \<Rightarrow> int" where
  "scale_den b e = b * 2 ^ nat e"

definition round_half_even :: "int \<Rightarrow> int \<Rightarrow> int" where
  "round_half_even n d =
     (let q = n div d; r = n mod d
      in if 2 * r < d then q
         else if d < 2 * r then q + 1
         else if even q then q else q + 1)"

text \<open>
  The exponent of the last mantissa bit for the quotient of two positive integers:
  the \<open>e\<close> with \<open>2^52 \<le> a / (b * 2^e) < 2^53\<close>, but not below -1074 (subnormal range).
\<close>

definition float_exponent :: "int \<Rightarrow> int \<Rightarrow> int" where
  "float_exponent a b =
     (let e0 = bitlen a - bitlen b - 53;
          e = (if 2 ^ 53 * scale_den b e0 \<le> scale_num a e0 then e0 + 1 else e0)
      in max e (- 1074))"

definition nearest_double :: "int \<Rightarrow> int \<Rightarrow> int \<times> int" where
  "nearest_double a b =
     (let e = float_exponent a b
      in (round_half_even (scale_num a e) (scale_den b e), e))"

definition py_truediv :: "int \<Rightarrow> int \<Rightarrow> error + int \<times> int" where
  "py_truediv a b =
     (if b = 0 then Inl ZeroDivisionError
      else if a = 0 then Inr (0, 0)
      else
        (let (m, e) = nearest_double \<bar>a\<bar> \<bar>b\<bar>
         in if 0 \<le> e \<and> 2 ^ 1024 \<le> m * 2 ^ nat e then Inl OverflowError
            else Inr (sgn a * sgn b * m, e)))"

text \<open>\<open>int(x)\<close> on a finite float truncates towards zero.\<close>

definition py_int :: "int \<times> int \<Rightarrow> int" where
  "py_int x =
     (case x of (m, e) \<Rightarrow>
        if 0 \<le> e then m * 2 ^ nat e else sgn m * (\<bar>m\<bar> div 2 ^ nat (- e)))"

section \<open>One-dimensional decomposition\<close>

text \<open>
  \<open>Decomposition\<close> keeps the communicator's size and the caller's rank
  (\<open>self.size\<close>, \<open>self.rank\<close>), both integers returned by MPI.
\<close>

record decomposition =
  comm_size :: int
  comm_rank :: int

text \<open>
  The first two statements of \<open>Decomposition.__split_work\<close>:
  \<open>part = int(load / workers)\<close> and \<open>rem = load - part * workers\<close>, on integers.
\<close>

definition uniform_part :: "int \<Rightarrow> int \<Rightarrow> error + int \<times> int" where
  "uniform_part load workers =
     (case py_truediv load workers of
        Inl err \<Rightarrow> Inl err
      | Inr x \<Rightarrow>
          (let part = py_int x;
               rem = load - part * workers
           in Inr (part, rem)))"

text \<open>
  \<open>Decomposition.__split_work(load, workers, id)\<close>: the three \<open>isinstance\<close> checks in
  the source's order, \<open>part\<close> and \<open>rem\<close>, then the two branches; past the checks the
  three arguments are ints, read by \<open>py_mantissa\<close>. The source's parameter \<open>id\<close> is
  \<open>ident\<close> here, \<open>id\<close> being the identity function of HOL.
\<close>

definition split_work :: "pyval \<Rightarrow> pyval \<Rightarrow> pyval \<Rightarrow> error + int \<times> int" where
  "split_work load workers ident =
     (if \<not> isinstance_int load then Inl ValueError
      else if \<not> isinstance_int workers then Inl ValueError
      else if \<not> isinstance_int ident then Inl ValueError
      else
        (let l = py_mantissa load; w = py_mantissa workers; i = py_mantissa ident
         in case uniform_part l w of Inl err \<Rightarrow> Inl err | Inr (part, rem) \<Rightarrow>
              if w - rem \<le> i
              then (let part = part + 1;
                        low = part * i - (w - rem);
                        hi = part * (1 + i) - (w - rem)
                    in Inr (low, hi))
              else (let low = part * i;
                        hi = part * (1 + i)
                    in Inr (low, hi))))"

text \<open>
  The boundary before worker \<open>i\<close> when the division is exact: \<open>i\<close> base shares, and
  one more unit for every worker below \<open>i\<close> among the last \<open>load mod workers\<close>. It is the
  closed form the two branches of \<open>__split_work\<close> are compared with.
\<close>

definition bound :: "int \<Rightarrow> int \<Rightarrow> int \<Rightarrow> int" where
  "bound l w i = l div w * i + max 0 (i - (w - l mod w))"

text \<open>
  \<open>Decomposition.decompose(domain, workers=None, id=None)\<close>. \<open>None\<close> is the omitted
  argument. \<open>size[0]\<close> on an empty domain raises \<open>IndexError\<close>, and the comparison
  \<open>size[0] < workers\<close>, which comes before the \<open>isinstance\<close> checks of \<open>__split_work\<close>,
  raises \<open>TypeError\<close> on operands without an ordering.
\<close>

definition decompose ::
  "'a decomposition_scheme \<Rightarrow> pyval list \<Rightarrow> pyval option \<Rightarrow> pyval option
    \<Rightarrow> error + pyval list \<times> pyval list \<times> pyval list" where
  "decompose self domain workers ident =
     (let size = domain;
          subsize = domain;
          start = replicate (length domain) (PInt 0);
          (workers, ident) =
            (case (workers, ident) of
               (Some w, Some i) \<Rightarrow> (w, i)
             | _ \<Rightarrow> (PInt (comm_size self), PInt (comm_rank self)))
      in case size of
           [] \<Rightarrow> Inl IndexError
         | s0 # _ \<Rightarrow>
             (case py_lt s0 workers of
                Inl err \<Rightarrow> Inl err
              | Inr True \<Rightarrow> Inl ValueError
              | Inr False \<Rightarrow>
                  (case split_work s0 workers ident of
                     Inl err \<Rightarrow> Inl err
                   | Inr (low, hi) \<Rightarrow>
                       Inr (size, subsize[0 := PInt (hi - low)], start[0 := PInt low]))))"

section \<open>Cartesian decomposition\<close>

text \<open>
  \<open>Cartesian\<close> extends \<open>Decomposition\<close> with the grid shape \<open>self.dims\<close> and the caller's
  grid coordinates \<open>self.coords\<close>, both lists of integers returned by MPI.
\<close>

record cartesian = decomposition +
  dims :: "int list"
  coords :: "int list"

text \<open>
  One pass of the loop of \<open>Cartesian.decompose\<close>: the parent's \<open>decompose\<close> on the
  one-axis domain \<open>[domain[dim]]\<close>, then \<open>subsizes[dim], starts[dim] = ssz[0], st[0]\<close>.
  An index past the end of \<open>domain\<close> or \<open>self.coords\<close> raises \<open>IndexError\<close>. The
  loop variable \<open>dim\<close> of the source is \<open>axis\<close> here.
\<close>

definition cart_step ::
  "'a cartesian_scheme \<Rightarrow> pyval list \<Rightarrow> nat \<Rightarrow> pyval list \<times> pyval list
    \<Rightarrow> error + pyval list \<times> pyval list" where
  "cart_step self domain axis acc =
     (case acc of (subsizes, starts) \<Rightarrow>
        if length domain \<le> axis \<or> length (coords self) \<le> axis then Inl IndexError
        else
          (case decompose self [domain ! axis]
                  (Some (PInt (dims self ! axis))) (Some (PInt (coords self ! axis))) of
             Inl err \<Rightarrow> Inl err
           | Inr (_, ssz, st) \<Rightarrow> Inr (subsizes[axis := ssz ! 0], starts[axis := st ! 0])))"

fun cart_loop ::
  "'a cartesian_scheme \<Rightarrow> pyval list \<Rightarrow> nat list \<Rightarrow> pyval list \<times> pyval list
    \<Rightarrow> error + pyval list \<times> pyval list" where
  "cart_loop self domain [] acc = Inr acc"
| "cart_loop self domain (axis # rest) acc =
     (case cart_step self domain axis acc of
        Inl err \<Rightarrow> Inl err
      | Inr acc' \<Rightarrow> cart_loop self domain rest acc')"

text \<open>\<open>Cartesian.decompose(domain)\<close>: the loop runs over \<open>range(len(self.dims))\<close>.\<close>

definition Cartesian_decompose ::
  "'a cartesian_scheme \<Rightarrow> pyval list
    \<Rightarrow> error + pyval list \<times> pyval list \<times> pyval list" where
  "Cartesian_decompose self domain =
     (let sizes = domain;
          subsizes = domain;
          starts = replicate (length domain) (PInt 0)
      in case cart_loop self domain [0 ..< length (dims self)] (subsizes, starts) of
           Inl err \<Rightarrow> Inl err
         | Inr (subsizes, starts) \<Rightarrow> Inr (sizes, subsizes, starts))"

text \<open>
  The cells of an array that a brick covers, given its extent and its first index on
  every axis, in row-major order; and the brick of a decomposition result.
\<close>

fun brick_cells :: "int list \<Rightarrow> int list \<Rightarrow> int list list" where
  "brick_cells [] [] = [[]]"
| "brick_cells (n # ns) (s # ss) =
     concat (map (\<lambda>x. map ((#) x) (brick_cells ns ss)) [s .. s + n - 1])"
| "brick_cells _ _ = []"

definition brick_of :: "error + pyval list \<times> pyval list \<times> pyval list \<Rightarrow> int list list" where
  "brick_of r =
     (case r of
        Inl _ \<Rightarrow> []
      | Inr (sizes, subsizes, starts) \<Rightarrow>
          brick_cells (map py_mantissa subsizes) (map py_mantissa starts))"

text \<open>The worker at grid coordinates \<open>c\<close> of a 2 x 2 process grid (row-major ranks).\<close>

definition grid2x2 :: "int list \<Rightarrow> cartesian" where
  "grid2x2 c = \<lparr>comm_size = 4, comm_rank = 2 * (c ! 0) + c ! 1, dims = [2, 2], coords = c\<rparr>"

section \<open>The collective file channel\<close>

text \<open>
  The calls \<open>MpiIO\<close> makes into MPI. A file handle is the file name and the access mode
  it was opened with; an MPI datatype is known by its name.
\<close>

type_synonym mpi_file = "string \<times> int"

type_synonym mpi_datatype = string

datatype mpi_call =
    File_Open string int
  | Create_subarray mpi_datatype "pyval list" "pyval list" "pyval list" int
  | Commit
  | Get_position mpi_file
  | Set_view int mpi_datatype
  | Read_all
  | Close

text \<open>
  What \<open>MpiIO\<close> uses of the \<open>mpi4py.MPI\<close> module, which is not part of the repository:
  the nine access-mode constants, \<open>ORDER_C\<close>, the table from numpy type characters to
  MPI datatypes (\<open>_typedict\<close>, or \<open>__TypeDict__\<close> in older releases; \<open>None\<close> when the
  attribute is absent), whether a call succeeds (a failing call raises MPI's exception)
  and the position a file handle reports.
\<close>

record mpi_module =
  MODE_RDONLY :: int
  MODE_RDWR :: int
  MODE_WRONLY :: int
  MODE_CREATE :: int
  MODE_EXCL :: int
  MODE_DELETE_ON_CLOSE :: int
  MODE_UNIQUE_OPEN :: int
  MODE_SEQUENTIAL :: int
  MODE_APPEND :: int
  ORDER_C :: int
  typedict :: "(char \<rightharpoonup> mpi_datatype) option"
  TypeDict :: "(char \<rightharpoonup> mpi_datatype) option"
  call_ok :: "mpi_call \<Rightarrow> bool"
  position :: "mpi_file \<Rightarrow> int"

text \<open>
  \<open>self.decomposition\<close> is a \<open>Cartesian\<close> for a Cartesian communicator and a
  \<open>Decomposition\<close> otherwise; \<open>load\<close> calls its \<open>decompose(domain)\<close>.
\<close>

datatype decomp = Linear decomposition | Cart cartesian

fun decomp_decompose ::
  "decomp \<Rightarrow> pyval list \<Rightarrow> error + pyval list \<times> pyval list \<times> pyval list" where
  "decomp_decompose (Linear d) domain = decompose d domain None None"
| "decomp_decompose (Cart c) domain = Cartesian_decompose c domain"

text \<open>
  The state of an \<open>MpiIO\<close> object, with the MPI calls issued so far: the file system is
  reached through these calls only.
\<close>

record mpiio =
  decomposition :: decomp
  filename :: string
  handler :: "mpi_file option"
  calls :: "mpi_call list"

definition issue :: "mpi_module \<Rightarrow> mpi_call \<Rightarrow> mpiio \<Rightarrow> (error + unit) \<times> mpiio" where
  "issue MPI c self =
     (if call_ok MPI c then Inr () else Inl MPIException, self\<lparr>calls := calls self @ [c]\<rparr>)"

text \<open>
  \<open>MpiIO.__check_file_mode(mode)\<close>: the dictionary \<open>switcher\<close> has the nine constants as
  keys (a later entry replaces an earlier one with an equal key) and a description as
  value; \<open>switcher.get(mode)\<close> is \<open>None\<close> exactly for a \<open>mode\<close> that is no key.
\<close>

definition switcher :: "mpi_module \<Rightarrow> (int \<rightharpoonup> string)" where
  "switcher MPI =
     [MODE_RDONLY MPI \<mapsto> ''MPI.MODE_RDONLY - read only'',
      MODE_RDWR MPI \<mapsto> ''MPI.MODE_RDWR - reading and writing'',
      MODE_WRONLY MPI \<mapsto> ''MPI.MODE_WRONLY - write only'',
      MODE_CREATE MPI \<mapsto> ''MPI.MODE_CREATE - create the file if it does not exist'',
      MODE_EXCL MPI \<mapsto> ''MPI.MODE_EXCL - error if creating file that already exists'',
      MODE_DELETE_ON_CLOSE MPI \<mapsto> ''MPI.MODE_DELETE_ON_CLOSE - delete file on close'',
      MODE_UNIQUE_OPEN MPI \<mapsto>
        ''MPI.MODE_UNIQUE_OPEN - file will not be concurrently opened elsewhere'',
      MODE_SEQUENTIAL MPI \<mapsto>
        ''MPI.MODE_SEQUENTIAL - file will only be accessed sequentially'',
      MODE_APPEND MPI \<mapsto>
        ''MPI.MODE_APPEND - set initial position of all file pointers to end of file'']"

definition check_file_mode :: "mpi_module \<Rightarrow> int \<Rightarrow> error + int" where
  "check_file_mode MPI mode =
     (if switcher MPI mode = None then Inl ValueError else Inr mode)"

text \<open>\<open>MpiIO.file_open(mode)\<close>.\<close>

definition file_open :: "mpi_module \<Rightarrow> mpiio \<Rightarrow> int \<Rightarrow> (error + unit) \<times> mpiio" where
  "file_open MPI self mode =
     (case check_file_mode MPI mode of
        Inl err \<Rightarrow> (Inl err, self)
      | Inr amode \<Rightarrow>
          (case issue MPI (File_Open (filename self) amode) self of
             (Inl err, self) \<Rightarrow> (Inl err, self)
           | (Inr _, self) \<Rightarrow> (Inr (), self\<lparr>handler := Some (filename self, amode)\<rparr>)))"

text \<open>
  The element type given to \<open>load\<close>: an object of a numpy type, known by its type
  character (\<open>numpy.dtype(t).char\<close>), or anything else.
\<close>

datatype pytype = Numpy_dtype char | Other_type

text \<open>\<open>MpiIO.__dtype_to_mpi(t)\<close>; a character missing from the table raises \<open>KeyError\<close>.\<close>

definition dtype_to_mpi :: "mpi_module \<Rightarrow> char \<Rightarrow> error + mpi_datatype" where
  "dtype_to_mpi MPI t =
     (case typedict MPI of
        Some d \<Rightarrow> (case d t of None \<Rightarrow> Inl KeyError | Some mpi_type \<Rightarrow> Inr mpi_type)
      | None \<Rightarrow>
          (case TypeDict MPI of
             Some d \<Rightarrow> (case d t of None \<Rightarrow> Inl KeyError | Some mpi_type \<Rightarrow> Inr mpi_type)
           | None \<Rightarrow> Inl ValueError))"

text \<open>\<open>str.upper()\<close> on the characters of an order flag.\<close>

definition upper_char :: "char \<Rightarrow> char" where
  "upper_char c =
     (if 97 \<le> (of_char c :: nat) \<and> (of_char c :: nat) \<le> 122
      then char_of ((of_char c :: nat) - 32) else c)"

definition upper :: "string \<Rightarrow> string" where
  "upper s = map upper_char s"

text \<open>The array \<open>load\<close> returns: its shape, element type and memory order.\<close>

record ndarray =
  shape :: "pyval list"
  elem_type :: pytype
  mem_order :: string

text \<open>
  \<open>MpiIO.load(domain, dtype, order, header_offset)\<close>, statement by statement. An
  exception leaves the object as the statements before it made it.
\<close>

definition load ::
  "mpi_module \<Rightarrow> mpiio \<Rightarrow> pyval list \<Rightarrow> pytype \<Rightarrow> string \<Rightarrow> int
    \<Rightarrow> (error + ndarray) \<times> mpiio" where
  "load MPI self domain dtype order header_offset =
     (case (if handler self = None then file_open MPI self (MODE_RDONLY MPI)
            else (Inr (), self)) of
        (Inl err, self) \<Rightarrow> (Inl err, self)
      | (Inr _, self) \<Rightarrow>
     (case decomp_decompose (decomposition self) domain of
        Inl err \<Rightarrow> (Inl err, self)
      | Inr (sizes, subsizes, starts) \<Rightarrow>
     (case (case dtype of
              Numpy_dtype t \<Rightarrow> dtype_to_mpi MPI t
            | Other_type \<Rightarrow> Inl NotImplementedError) of
        Inl err \<Rightarrow> (Inl err, self)
      | Inr etype \<Rightarrow>
     (if upper order \<noteq> ''C'' then (Inl ValueError, self)
      else
     (let mpi_order = ORDER_C MPI in
     (case issue MPI (Create_subarray etype sizes subsizes starts mpi_order) self of
        (Inl err, self) \<Rightarrow> (Inl err, self)
      | (Inr _, self) \<Rightarrow>
     (case issue MPI Commit self of
        (Inl err, self) \<Rightarrow> (Inl err, self)
      | (Inr _, self) \<Rightarrow>
     (case handler self of
        None \<Rightarrow> (Inl AttributeError, self)
      | Some h \<Rightarrow>
     (case issue MPI (Get_position h) self of
        (Inl err, self) \<Rightarrow> (Inl err, self)
      | (Inr _, self) \<Rightarrow>
     (let pos = position MPI h + header_offset in
     (case issue MPI (Set_view pos etype) self of
        (Inl err, self) \<Rightarrow> (Inl err, self)
      | (Inr _, self) \<Rightarrow>
     (let local_array = \<lparr>shape = subsizes, elem_type = dtype, mem_order = upper order\<rparr> in
     (case issue MPI Read_all self of
        (Inl err, self) \<Rightarrow> (Inl err, self)
      | (Inr _, self) \<Rightarrow> (Inr local_array, self))))))))))))))"

text \<open>\<open>MpiIO.save(array, header)\<close>: the body is one \<open>raise NotImplementedError\<close>.\<close>

definition save :: "mpiio \<Rightarrow> ndarray \<Rightarrow> string \<Rightarrow> (error + unit) \<times> mpiio" where
  "save self array header = (Inl NotImplementedError, self)"

text \<open>
  The access-mode constants of MPICH's and Open MPI's \<open>mpi.h\<close>, which agree, for running
  the channel on concrete modes; every call succeeds.
\<close>

definition mpich :: mpi_module where
  "mpich =
     \<lparr>MODE_RDONLY = 2, MODE_RDWR = 8, MODE_WRONLY = 4, MODE_CREATE = 1, MODE_EXCL = 64,
      MODE_DELETE_ON_CLOSE = 16, MODE_UNIQUE_OPEN = 32, MODE_SEQUENTIAL = 256,
      MODE_APPEND = 128, ORDER_C = 56,
      typedict = Some [CHR ''d'' \<mapsto> ''MPI_DOUBLE'', CHR ''f'' \<mapsto> ''MPI_FLOAT''],
      TypeDict = None,
      call_ok = (\<lambda>_. True),
      position = (\<lambda>_. 0)\<rparr>"

text \<open>
  An \<open>MpiIO\<close> as its constructor leaves it, for the file \<open>data.npy\<close> on rank 0 of a
  communicator of two processes.
\<close>

definition channel0 :: mpiio where
  "channel0 =
     \<lparr>decomposition = Linear \<lparr>comm_size = 2, comm_rank = 0\<rparr>,
      filename = ''data.npy'', handler = None, calls = []\<rparr>"

section \<open>True division below 2^53\<close>

text \<open>
  The bit length brackets a positive integer between two powers of two; from there the
  exponent chosen by \<open>float_exponent\<close> puts the scaled quotient in \<open>[2^52, 2^53)\<close>.
\<close>

lemma bitlen_nat_bounds:
  assumes "0 < a"
  obtains l where "bitlen a = int l" "1 \<le> l" "2 ^ (l - 1) \<le> a" "a < 2 ^ l"
proof -
  have nn: "0 \<le> bitlen a" by (rule bitlen_nonneg)
  have nz: "bitlen a \<noteq> 0" using assms by (simp add: bitlen_eq_zero_iff)
  define l where "l = nat (bitlen a)"
  have 1: "bitlen a = int l" using nn by (simp add: l_def)
  have 2: "1 \<le> l" using nn nz 1 by linarith
  have 3: "nat (bitlen a - 1) = l - 1" using 1 2 by simp
  from bitlen_bounds[OF assms] have "2 ^ (l - 1) \<le> a" "a < 2 ^ l"
    using 3 by (simp_all add: l_def)
  with 1 2 that show thesis by blast
qed

lemma scale_step:
  "scale_num a e * scale_den b (e + 1) = 2 * (scale_num a (e + 1) * scale_den b e)"
proof (cases "e < 0")
  case True
  then have "nat (- e) = Suc (nat (- (e + 1)))" "nat (e + 1) = 0" "nat e = 0" by simp_all
  then show ?thesis by (simp add: scale_num_def scale_den_def)
next
  case False
  then have "nat (e + 1) = Suc (nat e)" "nat (- e) = 0" "nat (- (e + 1)) = 0" by simp_all
  then show ?thesis by (simp add: scale_num_def scale_den_def)
qed

lemma scale_den_pos: "0 < b \<Longrightarrow> 0 < scale_den b e"
  by (simp add: scale_den_def)

lemma scale_num_pos: "0 < a \<Longrightarrow> 0 < scale_num a e"
  by (simp add: scale_num_def)

lemma scale_at_e0:
  fixes a b :: int
  assumes a: "0 < a" and b: "0 < b"
  defines "e0 \<equiv> bitlen a - bitlen b - 53"
  shows "2 ^ 52 * scale_den b e0 \<le> scale_num a e0" and "scale_num a e0 < 2 ^ 54 * scale_den b e0"
proof -
  obtain la where la: "bitlen a = int la" "1 \<le> la" "2 ^ (la - 1) \<le> a" "a < 2 ^ la"
    using bitlen_nat_bounds[OF a] by blast
  obtain lb where lb: "bitlen b = int lb" "1 \<le> lb" "2 ^ (lb - 1) \<le> b" "b < 2 ^ lb"
    using bitlen_nat_bounds[OF b] by blast
  have e0: "e0 = int la - int lb - 53" by (simp add: e0_def la lb)
  show "2 ^ 52 * scale_den b e0 \<le> scale_num a e0"
  proof (cases "e0 < 0")
    case True
    define n where "n = nat (- e0)"
    have n: "n + la = lb + 53" using True e0 by (simp add: n_def)
    have "2 ^ 52 * b \<le> 2 ^ 52 * (2::int) ^ lb" using lb(4) by simp
    also have "\<dots> = 2 ^ (la - 1) * 2 ^ n"
    proof -
      have "52 + lb = (la - 1) + n" using n la(2) by linarith
      then show ?thesis by (metis power_add)
    qed
    also have "\<dots> \<le> a * 2 ^ n" using la(3) by (simp add: mult_right_mono)
    finally show ?thesis using True by (simp add: scale_num_def scale_den_def n_def)
  next
    case False
    define m where "m = nat e0"
    have m: "la = lb + 53 + m" using False e0 by (simp add: m_def)
    have "2 ^ 52 * (b * 2 ^ m) \<le> 2 ^ 52 * ((2::int) ^ lb * 2 ^ m)" using lb(4) by (simp add: mult_right_mono)
    also have "\<dots> = 2 ^ (la - 1)"
    proof -
      have "la - 1 = 52 + (lb + m)" using m by linarith
      then show ?thesis by (simp add: power_add)
    qed
    also have "\<dots> \<le> a" using la(3) .
    finally show ?thesis using False by (simp add: scale_num_def scale_den_def m_def)
  qed
  show "scale_num a e0 < 2 ^ 54 * scale_den b e0"
  proof (cases "e0 < 0")
    case True
    define n where "n = nat (- e0)"
    have n: "n + la = lb + 53" using True e0 by (simp add: n_def)
    have "a * 2 ^ n < 2 ^ la * (2::int) ^ n" using la(4) by simp
    also have "\<dots> = 2 ^ 54 * 2 ^ (lb - 1)"
    proof -
      have "la + n = 54 + (lb - 1)" using n lb(2) by linarith
      then show ?thesis by (metis power_add)
    qed
    also have "\<dots> \<le> 2 ^ 54 * b" using lb(3) by simp
    finally show ?thesis using True by (simp add: scale_num_def scale_den_def n_def)
  next
    case False
    define m where "m = nat e0"
    have m: "la = lb + 53 + m" using False e0 by (simp add: m_def)
    have "a < 2 ^ la" using la(4) .
    also have "\<dots> = 2 ^ 54 * ((2::int) ^ (lb - 1) * 2 ^ m)"
    proof -
      have "la = 54 + ((lb - 1) + m)" using m lb(2) by linarith
      then show ?thesis by (metis power_add)
    qed
    also have "\<dots> \<le> 2 ^ 54 * (b * 2 ^ m)" using lb(3) by (simp add: mult_right_mono)
    finally show ?thesis using False by (simp add: scale_num_def scale_den_def m_def)
  qed
qed


lemma pre_exponent:
  fixes a b :: int
  assumes a: "0 < a" and b: "0 < b"
    and e0_def: "e0 = bitlen a - bitlen b - 53"
    and e1_def: "e1 = (if 2 ^ 53 * scale_den b e0 \<le> scale_num a e0 then e0 + 1 else e0)"
  shows "2 ^ 52 * scale_den b e1 \<le> scale_num a e1"
    and "scale_num a e1 < 2 ^ 53 * scale_den b e1"
proof -
  have lo: "2 ^ 52 * scale_den b e0 \<le> scale_num a e0"
    and hi: "scale_num a e0 < 2 ^ 54 * scale_den b e0"
    using scale_at_e0[OF a b] by (simp_all add: e0_def)
  have step: "scale_num a e0 * scale_den b (e0 + 1) = 2 * (scale_num a (e0 + 1) * scale_den b e0)"
    by (rule scale_step)
  have d0: "0 < scale_den b e0" and d1: "0 < scale_den b (e0 + 1)"
    using b by (simp_all add: scale_den_pos)
  show "2 ^ 52 * scale_den b e1 \<le> scale_num a e1"
  proof (cases "2 ^ 53 * scale_den b e0 \<le> scale_num a e0")
    case True
    then have "2 ^ 53 * scale_den b e0 * scale_den b (e0 + 1) \<le> scale_num a e0 * scale_den b (e0 + 1)"
      using d1 by (simp add: mult_right_mono)
    then have "(2 ^ 52 * scale_den b (e0 + 1)) * scale_den b e0 \<le> scale_num a (e0 + 1) * scale_den b e0"
      using step by (simp add: mult.commute mult.left_commute)
    then have "2 ^ 52 * scale_den b (e0 + 1) \<le> scale_num a (e0 + 1)"
      using d0 by (simp only: mult_le_cancel_right_pos)
    then show ?thesis using True by (simp add: e1_def)
  next
    case False
    then show ?thesis using lo by (simp add: e1_def)
  qed
  show "scale_num a e1 < 2 ^ 53 * scale_den b e1"
  proof (cases "2 ^ 53 * scale_den b e0 \<le> scale_num a e0")
    case True
    have "scale_num a e0 * scale_den b (e0 + 1) < 2 ^ 54 * scale_den b e0 * scale_den b (e0 + 1)"
      using hi d1 by (simp add: mult_strict_right_mono)
    then have "scale_num a (e0 + 1) * scale_den b e0 < (2 ^ 53 * scale_den b (e0 + 1)) * scale_den b e0"
      using step by (simp add: mult.commute mult.left_commute)
    then have "scale_num a (e0 + 1) < 2 ^ 53 * scale_den b (e0 + 1)"
      using d0 by (simp only: mult_less_cancel_right_pos)
    then show ?thesis using True by (simp add: e1_def)
  next
    case False
    then show ?thesis by (simp add: e1_def)
  qed
qed

lemma round_up_keeps_floor:
  fixes a b :: int and k :: nat
  assumes b: "0 < b" and a: "0 \<le> a" and small: "a < 2 ^ 53"
    and norm: "2 ^ 52 * b \<le> a * 2 ^ k"
    and up: "b \<le> 2 * (a * 2 ^ k mod b)"
  shows "(a * 2 ^ k div b + 1) div 2 ^ k = a div b"
proof -
  define N where "N = a * 2 ^ k"
  define Q where "Q = N div b"
  define R where "R = N mod b"
  define q where "q = a div b"
  define r where "r = a mod b"
  define P :: int where "P = 2 ^ k"
  have P: "0 < P" by (simp add: P_def)
  have N: "N = Q * b + R" by (simp add: Q_def R_def)
  have A: "a = q * b + r" by (simp add: q_def r_def)
  have r: "0 \<le> r" "r < b" using b by (simp_all add: r_def)
  have R: "0 \<le> R" "R < b" using b by (simp_all add: R_def)
  have NP: "N = a * P" by (simp add: N_def P_def)
  have lower: "q * P \<le> Q"
  proof -
    have "q * b \<le> a" using A r by simp
    then have "q * b * P \<le> a * P" using P by (simp add: mult_right_mono)
    then have "(q * P) * b \<le> N" by (simp add: NP mult.commute mult.left_commute)
    then have "(q * P) * b div b \<le> N div b" by (rule zdiv_mono1) (rule b)
    then show ?thesis using b by (simp add: Q_def)
  qed
  have upper: "Q + 1 < (q + 1) * P"
  proof (rule ccontr)
    assume "\<not> Q + 1 < (q + 1) * P"
    then have "(q + 1) * P - 1 \<le> Q" by simp
    then have "((q + 1) * P - 1) * b \<le> Q * b" using b by (simp only: mult_right_mono)
    then have 1: "(q + 1) * P * b - b + R \<le> N" using N by (simp add: algebra_simps)
    have 2: "(q + 1) * P * b - N = P * (b - r)"
      by (simp add: NP A algebra_simps)
    have "P * 1 \<le> P * (b - r)" using r P by (simp only: mult_left_mono)
    then have 3: "P \<le> (q + 1) * P * b - N" using 2 by simp
    have 4: "2 * P \<le> b" using 1 3 up by (simp add: R_def N_def)
    have "2 ^ 53 * b \<le> 2 * (a * P)" using norm by (simp add: P_def)
    also have "\<dots> = a * (2 * P)" by simp
    also have "\<dots> \<le> a * b" using 4 a by (rule mult_left_mono)
    also have "\<dots> < 2 ^ 53 * b" using small b by simp
    finally show False by simp
  qed
  have "Q + 1 = P * q + (Q + 1 - q * P)" by (simp add: algebra_simps)
  moreover have "0 \<le> Q + 1 - q * P" using lower by simp
  moreover have "Q + 1 - q * P < P" using upper by (simp add: algebra_simps)
  ultimately have "(Q + 1) div P = q" by (rule int_div_pos_eq)
  then show ?thesis by (simp add: Q_def N_def P_def q_def)
qed

lemma round_down_keeps_floor:
  fixes a b :: int and k :: nat
  assumes b: "0 < b"
  shows "(a * 2 ^ k div b) div 2 ^ k = a div b"
proof -
  have "(a * 2 ^ k div b) div 2 ^ k = a * 2 ^ k div (b * 2 ^ k)"
    using b by (simp add: zdiv_zmult2_eq)
  then show ?thesis by simp
qed


lemma round_half_even_cases:
  "round_half_even n d = n div d \<or> (round_half_even n d = n div d + 1 \<and> d \<le> 2 * (n mod d))"
  by (simp add: round_half_even_def Let_def)

lemma nearest_double_small:
  fixes a b :: int
  assumes a: "0 < a" and small: "a < 2 ^ 53" and b: "0 < b"
  obtains m k where "nearest_double a b = (m, - int k)" "0 \<le> m" "m \<le> 2 ^ 53"
    "m div 2 ^ k = a div b"
proof -
  define e0 where "e0 = bitlen a - bitlen b - 53"
  define e1 where "e1 = (if 2 ^ 53 * scale_den b e0 \<le> scale_num a e0 then e0 + 1 else e0)"
  have lo: "2 ^ 52 * scale_den b e1 \<le> scale_num a e1"
    and hi: "scale_num a e1 < 2 ^ 53 * scale_den b e1"
    using pre_exponent[OF a b e0_def e1_def] by blast+
  have e1: "e1 \<le> 0"
  proof (rule ccontr)
    assume "\<not> e1 \<le> 0"
    then have pos: "0 < e1" by simp
    then have "nat e1 = Suc (nat (e1 - 1))" by simp
    then have "(2::int) ^ nat e1 = 2 * 2 ^ nat (e1 - 1)" by simp
    moreover have "(1::int) \<le> 2 ^ nat (e1 - 1)" by simp
    ultimately have "(2::int) \<le> 2 ^ nat e1" by linarith
    then have "b * 2 \<le> b * 2 ^ nat e1" using b by (simp only: mult_left_mono)
    then have "2 ^ 52 * (b * 2) \<le> 2 ^ 52 * scale_den b e1"
      by (simp add: scale_den_def)
    also have "\<dots> \<le> a" using lo pos by (simp add: scale_num_def)
    finally show False using small b by simp
  qed
  define e where "e = float_exponent a b"
  have e: "e = max e1 (- 1074)"
    by (simp add: e_def float_exponent_def Let_def e1_def e0_def)
  define k where "k = nat (- e)"
  have ek: "e = - int k" using e e1 by (simp add: k_def)
  have den: "scale_den b e = b" using ek by (simp add: scale_den_def)
  have num: "scale_num a e = a * 2 ^ k" by (simp add: scale_num_def k_def)
  define m where "m = round_half_even (a * 2 ^ k) b"
  have nd: "nearest_double a b = (m, - int k)"
    using den num ek by (simp add: nearest_double_def Let_def m_def e_def[symmetric])
  define Q where "Q = a * 2 ^ k div b"
  have Q0: "0 \<le> Q" using a b by (simp add: Q_def pos_imp_zdiv_nonneg_iff)
  have cases: "m = Q \<or> (m = Q + 1 \<and> b \<le> 2 * (a * 2 ^ k mod b))"
    using round_half_even_cases[of "a * 2 ^ k" b] by (simp add: m_def Q_def)
  have m0: "0 \<le> m" using cases Q0 by auto
  have hik: "a * 2 ^ k < 2 ^ 53 * b"
  proof -
    have "k \<le> nat (- e1)" using e by (simp add: k_def)
    then have "(2::int) ^ k \<le> 2 ^ nat (- e1)" by (simp add: power_increasing)
    then have "a * 2 ^ k \<le> a * 2 ^ nat (- e1)" using a by (simp only: mult_left_mono)
    also have "\<dots> < 2 ^ 53 * b" using hi e1 by (simp add: scale_num_def scale_den_def)
    finally show ?thesis .
  qed
  have Q53: "Q < 2 ^ 53"
  proof -
    have "a * 2 ^ k = Q * b + a * 2 ^ k mod b" by (simp add: Q_def)
    moreover have "0 \<le> a * 2 ^ k mod b" using b by simp
    ultimately have "Q * b \<le> a * 2 ^ k" by linarith
    then have "Q * b < 2 ^ 53 * b" using hik by linarith
    then show ?thesis using b by (simp only: mult_less_cancel_right_pos)
  qed
  have m53: "m \<le> 2 ^ 53" using cases Q53 by auto
  have "m div 2 ^ k = a div b"
  proof (cases "e1 < - 1074")
    case True
    then have k: "k = 1074" using e by (simp add: k_def)
    have "m < 2 ^ 1074" using m53 by simp
    then have 1: "m div 2 ^ k = 0" using m0 k by simp
    have "a < b"
    proof (rule ccontr)
      assume "\<not> a < b"
      then have "b \<le> a" by simp
      then have "b * 2 ^ 1074 \<le> a * 2 ^ 1074" by (simp add: mult_right_mono)
      then have "b * 2 ^ 1074 < 2 ^ 53 * b" using hik k by simp
      then show False using b by simp
    qed
    then have "a div b = 0" using a by simp
    then show ?thesis using 1 by simp
  next
    case False
    then have "e = e1" using e by simp
    then have norm: "2 ^ 52 * b \<le> a * 2 ^ k" using lo den num by simp
    from cases show ?thesis
    proof
      assume "m = Q"
      then show ?thesis using round_down_keeps_floor[OF b, of a k] by (simp add: Q_def)
    next
      assume "m = Q + 1 \<and> b \<le> 2 * (a * 2 ^ k mod b)"
      then show ?thesis
        using round_up_keeps_floor[OF b _ small norm, of ] a by (simp add: Q_def)
    qed
  qed
  with nd m0 m53 that show thesis by blast
qed

lemma py_truediv_small:
  fixes a b :: int
  assumes b: "0 < b" and a: "0 \<le> a" and small: "a < 2 ^ 53"
  shows "\<exists>x. py_truediv a b = Inr x \<and> py_int x = a div b"
proof (cases "a = 0")
  case True
  then show ?thesis using b by (simp add: py_truediv_def py_int_def)
next
  case False
  then have a': "0 < a" using a by simp
  obtain m k where nd: "nearest_double a b = (m, - int k)" and m: "0 \<le> m" "m \<le> 2 ^ 53"
    and fl: "m div 2 ^ k = a div b"
    using nearest_double_small[OF a' small b] by blast
  have no: "\<not> (0 \<le> - int k \<and> 2 ^ 1024 \<le> m * 2 ^ nat (- int k))"
  proof
    assume "0 \<le> - int k \<and> 2 ^ 1024 \<le> m * 2 ^ nat (- int k)"
    then have "k = 0" "2 ^ 1024 \<le> m * 2 ^ nat (- int k)" by simp_all
    then have "2 ^ 1024 \<le> m" by simp
    then show False using m(2) by simp
  qed
  have "py_truediv a b = Inr (m, - int k)"
    using a' b nd no by (simp add: py_truediv_def)
  moreover have "py_int (m, - int k) = a div b"
  proof (cases "k = 0")
    case True
    then show ?thesis using fl by (simp add: py_int_def)
  next
    case False
    then have "py_int (m, - int k) = sgn m * (\<bar>m\<bar> div 2 ^ k)" by (simp add: py_int_def)
    also have "\<dots> = m div 2 ^ k" using m(1) by (cases "m = 0") simp_all
    finally show ?thesis using fl by simp
  qed
  ultimately show ?thesis by blast
qed

text \<open>
  For a dividend below 2^53 the rounded quotient truncates to the floor quotient, so
  \<open>part\<close> and \<open>rem\<close> are the quotient and the remainder of integer division.
\<close>

lemma uniform_part_exact:
  assumes "0 < w" and "0 \<le> l" and "l < 2 ^ 53"
  shows "uniform_part l w = Inr (l div w, l mod w)"
proof -
  obtain x where x: "py_truediv l w = Inr x" "py_int x = l div w"
    using py_truediv_small[OF assms] by blast
  have "l - l div w * w = l mod w"
    by (simp add: minus_div_mult_eq_mod)
  then show ?thesis using x by (simp add: uniform_part_def)
qed

lemma split_work_exact:
  assumes "0 < w" and "0 \<le> l" and "l < 2 ^ 53"
  shows "split_work (PInt l) (PInt w) (PInt i) =
           Inr (if w - l mod w \<le> i
                then ((l div w + 1) * i - (w - l mod w), (l div w + 1) * (1 + i) - (w - l mod w))
                else (l div w * i, l div w * (1 + i)))"
  using uniform_part_exact[OF assms] by (simp add: split_work_def Let_def)

text \<open>The only errors of the division are a zero divisor and an overflow.\<close>

lemma uniform_part_errors:
  "uniform_part l w = Inl err \<Longrightarrow> err = ZeroDivisionError \<or> err = OverflowError"
  by (auto simp: uniform_part_def py_truediv_def Let_def split: if_splits prod.splits sum.splits)

section \<open>The base share\<close>

text \<open>
  C9: the base share is the floor quotient of \<open>load\<close> by \<open>workers\<close> and \<open>rem\<close> the
  remainder, whatever the magnitude. The source divides in floating point
  (\<open>int(load / workers)\<close>): for \<open>load = 2^53 + 3\<close> and one worker the quotient rounds to
  \<open>2^53 + 4\<close>, so \<open>part\<close> exceeds the load and \<open>rem\<close> is negative, where integer
  division gives \<open>2^53 + 3\<close> and \<open>0\<close>. Below 2^53 the two agree (\<open>uniform_part_exact\<close>).
\<close>

theorem uniform_part_rounds_above_2_53:
  "uniform_part 9007199254740995 1 = Inr (9007199254740996, - 1)
   \<and> (9007199254740995 :: int) div 1 = 9007199254740995
   \<and> (9007199254740995 :: int) mod 1 = 0"
  by code_simp

section \<open>The split as a partition\<close>

text \<open>For a load below 2^53 both branches of \<open>__split_work\<close> return consecutive boundaries.\<close>

lemma split_work_bounds:
  assumes "0 < w" and "0 \<le> l" and "l < 2 ^ 53"
  shows "split_work (PInt l) (PInt w) (PInt i) = Inr (bound l w i, bound l w (i + 1))"
  using split_work_exact[OF assms, of i]
  by (simp add: bound_def algebra_simps max_def)

lemma bound_0:
  assumes "0 < w"
  shows "bound l w 0 = 0"
proof -
  have "l mod w < w" using assms by simp
  then show ?thesis by (simp add: bound_def max_def)
qed

lemma bound_w: "0 < w \<Longrightarrow> bound l w w = l"
proof -
  assume w: "0 < w"
  then have "0 \<le> l mod w" by simp
  then have "bound l w w = l div w * w + l mod w" by (simp add: bound_def max_def)
  then show ?thesis by simp
qed

lemma bound_step:
  "bound l w (i + 1) - bound l w i = (if w - l mod w \<le> i then l div w + 1 else l div w)"
  by (simp add: bound_def algebra_simps max_def)

lemma bound_mono:
  assumes "0 < w" and "w \<le> l" and "i \<le> j"
  shows "bound l w i \<le> bound l w j"
proof -
  have "0 \<le> l div w" using assms by (simp add: pos_imp_zdiv_nonneg_iff)
  then have "l div w * i \<le> l div w * j" using assms(3) by (simp add: mult_left_mono)
  then show ?thesis using assms(3) by (simp add: bound_def max_def)
qed

lemma bound_strict:
  assumes "0 < w" and "w \<le> l"
  shows "bound l w i < bound l w (i + 1)"
proof -
  have "1 \<le> l div w" using assms by (simp add: pos_imp_zdiv_pos_iff Suc_le_eq int_one_le_iff_zero_less)
  then show ?thesis using bound_step[of l w i] by (simp split: if_splits)
qed

lemma chain_from_0:
  fixes f :: "nat \<Rightarrow> int"
  assumes "\<And>i. i < n \<Longrightarrow> f i \<le> f (Suc i)" and "k \<le> n"
  shows "f 0 \<le> f k"
  using assms(2)
proof (induction k)
  case 0
  show ?case by simp
next
  case (Suc k)
  then have "f 0 \<le> f k" by simp
  moreover have "f k \<le> f (Suc k)" using assms(1)[of k] Suc.prems by simp
  ultimately show ?case by simp
qed

lemma union_consecutive:
  fixes f :: "nat \<Rightarrow> int"
  assumes "\<And>i. i < n \<Longrightarrow> f i \<le> f (Suc i)"
  shows "(\<Union>i<n. {f i ..< f (Suc i)}) = {f 0 ..< f n}"
  using assms
proof (induction n)
  case 0
  then show ?case by simp
next
  case (Suc n)
  have m: "f 0 \<le> f n"
    by (rule chain_from_0[of n]) (simp_all add: Suc.prems)
  have "(\<Union>i<Suc n. {f i ..< f (Suc i)}) = (\<Union>i<n. {f i ..< f (Suc i)}) \<union> {f n ..< f (Suc n)}"
    by (simp add: lessThan_Suc Un_commute)
  also have "\<dots> = {f 0 ..< f n} \<union> {f n ..< f (Suc n)}" using Suc by simp
  also have "\<dots> = {f 0 ..< f (Suc n)}" using m Suc.prems[of n] by auto
  finally show ?case .
qed

text \<open>
  Below 2^53 the ranges of the workers start at 0, end at the load, follow one another
  without gap or overlap, are not empty, differ in size by at most 1, and their sizes
  sum to the load.
\<close>

lemma split_work_partition:
  assumes w: "0 < w" and wl: "w \<le> l" and small: "l < 2 ^ 53"
  shows "\<exists>low hi.
           (\<forall>i. split_work (PInt l) (PInt w) (PInt i) = Inr (low i, hi i))
           \<and> low 0 = 0 \<and> hi (w - 1) = l
           \<and> (\<forall>i. hi i = low (i + 1))
           \<and> (\<forall>i. low i < hi i)
           \<and> (\<forall>i j. \<bar>(hi i - low i) - (hi j - low j)\<bar> \<le> 1)
           \<and> (\<Sum>i<nat w. hi (int i) - low (int i)) = l
           \<and> (\<Union>i<nat w. {low (int i) ..< hi (int i)}) = {0 ..< l}
           \<and> (\<forall>i j. i < j \<longrightarrow> {low i ..< hi i} \<inter> {low j ..< hi j} = {})"
proof -
  have l0: "0 \<le> l" using w wl by simp
  let ?low = "bound l w" and ?hi = "\<lambda>i. bound l w (i + 1)"
  have 1: "\<forall>i. split_work (PInt l) (PInt w) (PInt i) = Inr (?low i, ?hi i)"
    using split_work_bounds[OF w l0 small] by simp
  have 2: "?low 0 = 0" "?hi (w - 1) = l" using w by (simp_all add: bound_0 bound_w)
  have 3: "\<forall>i. ?low i < ?hi i" using bound_strict[OF w wl] by simp
  have 4: "\<forall>i j. \<bar>(?hi i - ?low i) - (?hi j - ?low j)\<bar> \<le> 1"
    by (simp add: bound_step)
  have 5: "(\<Sum>i<nat w. ?hi (int i) - ?low (int i)) = l"
  proof -
    have "(\<Sum>i<nat w. ?hi (int i) - ?low (int i))
            = (\<Sum>i<nat w. bound l w (int (Suc i)) - bound l w (int i))"
      by (simp add: add.commute)
    also have "\<dots> = bound l w (int (nat w)) - bound l w (int 0)"
      by (rule sum_lessThan_telescope)
    finally show ?thesis using w by (simp add: bound_0 bound_w)
  qed
  have 6: "(\<Union>i<nat w. {?low (int i) ..< ?hi (int i)}) = {0 ..< l}"
  proof -
    have "(\<Union>i<nat w. {bound l w (int i) ..< bound l w (int (Suc i))})
            = {bound l w (int 0) ..< bound l w (int (nat w))}"
      by (rule union_consecutive) (simp add: bound_mono[OF w wl])
    then show ?thesis using w by (simp add: bound_0 bound_w add.commute)
  qed
  have 7: "\<forall>i j. i < j \<longrightarrow> {?low i ..< ?hi i} \<inter> {?low j ..< ?hi j} = {}"
  proof (intro allI impI)
    fix i j :: int
    assume "i < j"
    then have "bound l w (i + 1) \<le> bound l w j" by (simp add: bound_mono[OF w wl])
    then show "{?low i ..< ?hi i} \<inter> {?low j ..< ?hi j} = {}" by auto
  qed
  show ?thesis
    apply (rule exI[of _ ?low], rule exI[of _ ?hi])
    using 1 2 3 4 5 6 7 by simp
qed

text \<open>
  Below 2^53 the workers from \<open>workers - rem\<close> on receive \<open>part + 1\<close> and the others
  \<open>part\<close>; there are \<open>rem\<close> of the former among the ids \<open>0 .. workers - 1\<close>, and the
  share does not decrease with the id.
\<close>

lemma split_work_shares:
  assumes w: "0 < w" and wl: "w \<le> l" and small: "l < 2 ^ 53"
  shows "uniform_part l w = Inr (l div w, l mod w)
         \<and> (\<forall>i. \<exists>low hi. split_work (PInt l) (PInt w) (PInt i) = Inr (low, hi)
                \<and> hi - low = (if w - l mod w \<le> i then l div w + 1 else l div w))
         \<and> card {i. 0 \<le> i \<and> i < w \<and> w - l mod w \<le> i} = nat (l mod w)
         \<and> (\<forall>i j. i \<le> j \<longrightarrow> bound l w (i + 1) - bound l w i \<le> bound l w (j + 1) - bound l w j)"
proof -
  have l0: "0 \<le> l" using w wl by simp
  have r: "0 \<le> l mod w" "l mod w < w" using w by simp_all
  have "{i. 0 \<le> i \<and> i < w \<and> w - l mod w \<le> i} = {w - l mod w ..< w}" using r by auto
  then have c: "card {i. 0 \<le> i \<and> i < w \<and> w - l mod w \<le> i} = nat (l mod w)" by simp
  have s: "\<forall>i. \<exists>low hi. split_work (PInt l) (PInt w) (PInt i) = Inr (low, hi)
                \<and> hi - low = (if w - l mod w \<le> i then l div w + 1 else l div w)"
    using split_work_bounds[OF w l0 small] bound_step[of l w] by simp
  have m: "\<forall>i j. i \<le> j \<longrightarrow> bound l w (i + 1) - bound l w i \<le> bound l w (j + 1) - bound l w j"
    by (simp add: bound_step)
  show ?thesis using uniform_part_exact[OF w l0 small] s c m by simp
qed


text \<open>
  C1: for \<open>load \<ge> workers > 0\<close> the ranges of the workers are contiguous, disjoint and
  cover \<open>[0, load)\<close>. With \<open>load = 2^53 + 3\<close> and one worker the source returns
  \<open>[0, 2^53 + 4)\<close>, one unit past the load: the rounded floating-point quotient of C9.
\<close>

theorem split_work_exceeds_load:
  "split_work (PInt 9007199254740995) (PInt 1) (PInt 0) = Inr (0, 9007199254740996)"
  by code_simp

section \<open>The remainder\<close>

text \<open>
  C2: exactly the last \<open>rem\<close> workers receive \<open>part + 1\<close>. With \<open>load = 3 * 2^54 + 5\<close> and
  three workers the floating-point quotient rounds down to \<open>2^54\<close>, so \<open>rem\<close> is 5 for 3
  workers: each of them receives \<open>part + 1\<close>, the ranges start at 2 and two units of the
  load are assigned to nobody.
\<close>

theorem split_work_remainder_exceeds_workers:
  "uniform_part 54043195528445957 3 = Inr (18014398509481984, 5)
   \<and> map (\<lambda>i. split_work (PInt 54043195528445957) (PInt 3) (PInt i)) [0, 1, 2] =
       [Inr (2, 18014398509481987),
        Inr (18014398509481987, 36028797018963972),
        Inr (36028797018963972, 54043195528445957)]"
  by code_simp

section \<open>Invalid arguments\<close>

text \<open>The comparison raises nothing but \<open>TypeError\<close>, and only off numbers and strings.\<close>

lemma py_lt_TypeError_iff:
  "py_lt x y = Inl err \<longleftrightarrow>
     err = TypeError \<and> \<not> (is_number x \<and> is_number y) \<and> \<not> (is_str x \<and> is_str y)"
  by (cases x; cases y) (auto simp: py_lt_def)

text \<open>Past its three checks \<open>__split_work\<close> raises only what the division raises.\<close>

lemma split_work_ints:
  assumes "isinstance_int x" and "isinstance_int y" and "isinstance_int z"
  shows "split_work x y z \<noteq> Inl ValueError" and "split_work x y z \<noteq> Inl TypeError"
proof -
  show "split_work x y z \<noteq> Inl ValueError"
  proof (cases "uniform_part (py_mantissa x) (py_mantissa y)")
    case (Inl err)
    then have "err \<noteq> ValueError" using uniform_part_errors[OF Inl] by auto
    then show ?thesis using assms Inl by (simp add: split_work_def)
  next
    case (Inr pr)
    then show ?thesis using assms by (cases pr) (simp add: split_work_def Let_def)
  qed
  show "split_work x y z \<noteq> Inl TypeError"
  proof (cases "uniform_part (py_mantissa x) (py_mantissa y)")
    case (Inl err)
    then have "err \<noteq> TypeError" using uniform_part_errors[OF Inl] by auto
    then show ?thesis using assms Inl by (simp add: split_work_def)
  next
    case (Inr pr)
    then show ?thesis using assms by (cases pr) (simp add: split_work_def Let_def)
  qed
qed

lemma split_work_ValueError_iff:
  "split_work x y z = Inl ValueError
     \<longleftrightarrow> \<not> isinstance_int x \<or> \<not> isinstance_int y \<or> \<not> isinstance_int z"
proof (cases "isinstance_int x \<and> isinstance_int y \<and> isinstance_int z")
  case True
  then show ?thesis using split_work_ints(1)[of x y z] by simp
next
  case False
  then have "split_work x y z = Inl ValueError" by (auto simp: split_work_def)
  then show ?thesis using False by simp
qed

lemma split_work_not_TypeError: "split_work x y z \<noteq> Inl TypeError"
proof (cases "isinstance_int x \<and> isinstance_int y \<and> isinstance_int z")
  case True
  then show ?thesis using split_work_ints(2)[of x y z] by simp
next
  case False
  then have "split_work x y z = Inl ValueError" by (auto simp: split_work_def)
  then show ?thesis by simp
qed

text \<open>\<open>decompose\<close> on a non-empty domain with both arguments given.\<close>

lemma decompose_Cons:
  "decompose self (s0 # rest) (Some w) (Some i) =
     (case py_lt s0 w of
        Inl err \<Rightarrow> Inl err
      | Inr b \<Rightarrow>
          if b then Inl ValueError
          else (case split_work s0 w i of
                  Inl err \<Rightarrow> Inl err
                | Inr (low, hi) \<Rightarrow>
                    Inr (s0 # rest, PInt (hi - low) # rest,
                         PInt low # replicate (length rest) (PInt 0))))"
proof (cases "py_lt s0 w")
  case (Inl err)
  then show ?thesis by (simp add: decompose_def)
next
  case (Inr b)
  show ?thesis
  proof (cases "split_work s0 w i")
    case (Inl err)
    then show ?thesis using Inr by (cases b) (simp_all add: decompose_def)
  next
    case (Inr lh)
    then show ?thesis using \<open>py_lt s0 w = Inr b\<close> by (cases b; cases lh) (simp_all add: decompose_def)
  qed
qed


text \<open>
  C3, as the source has it: on a non-empty domain, \<open>decompose\<close> raises \<open>ValueError\<close>
  exactly when the comparison \<open>domain[0] < workers\<close> succeeds and either is true or one of
  \<open>domain[0]\<close>, \<open>workers\<close>, \<open>id\<close> is not an int; it raises \<open>TypeError\<close> exactly when the
  comparison does, which is when the two operands are neither both numbers nor both
  strings; and \<open>__split_work\<close> raises \<open>ValueError\<close> exactly when one of its arguments is
  not an int. The range of \<open>id\<close> is checked nowhere.
\<close>

theorem decompose_ValueError_iff:
  assumes "domain \<noteq> []"
  shows "(decompose self domain (Some workers) (Some ident) = Inl ValueError
            \<longleftrightarrow> py_lt (domain ! 0) workers = Inr True
                \<or> (py_lt (domain ! 0) workers = Inr False
                    \<and> (\<not> isinstance_int (domain ! 0) \<or> \<not> isinstance_int workers
                        \<or> \<not> isinstance_int ident)))
         \<and> (decompose self domain (Some workers) (Some ident) = Inl TypeError
            \<longleftrightarrow> \<not> (is_number (domain ! 0) \<and> is_number workers)
                \<and> \<not> (is_str (domain ! 0) \<and> is_str workers))
         \<and> (split_work ld workers ident = Inl ValueError
            \<longleftrightarrow> \<not> isinstance_int ld \<or> \<not> isinstance_int workers \<or> \<not> isinstance_int ident)"
proof -
  obtain s0 rest where d: "domain = s0 # rest" using assms by (cases domain) auto
  have v: "decompose self domain (Some workers) (Some ident) = Inl ValueError
          \<longleftrightarrow> py_lt s0 workers = Inr True
              \<or> (py_lt s0 workers = Inr False
                  \<and> (\<not> isinstance_int s0 \<or> \<not> isinstance_int workers \<or> \<not> isinstance_int ident))"
  proof (cases "py_lt s0 workers")
    case (Inl err)
    then have "err = TypeError" by (simp add: py_lt_TypeError_iff)
    then show ?thesis using Inl by (simp add: d decompose_Cons)
  next
    case (Inr b)
    show ?thesis
    proof (cases b)
      case True
      then show ?thesis using Inr by (simp add: d decompose_Cons)
    next
      case False
      have "decompose self domain (Some workers) (Some ident) = Inl ValueError
              \<longleftrightarrow> split_work s0 workers ident = Inl ValueError"
        using Inr False
        by (cases "split_work s0 workers ident") (auto simp: d decompose_Cons)
      then show ?thesis using Inr False split_work_ValueError_iff[of s0 workers ident] by simp
    qed
  qed
  have t: "decompose self domain (Some workers) (Some ident) = Inl TypeError
          \<longleftrightarrow> \<not> (is_number s0 \<and> is_number workers) \<and> \<not> (is_str s0 \<and> is_str workers)"
  proof (cases "py_lt s0 workers")
    case (Inl err)
    then have e: "err = TypeError" "\<not> (is_number s0 \<and> is_number workers)"
      "\<not> (is_str s0 \<and> is_str workers)"
      by (simp_all add: py_lt_TypeError_iff)
    then show ?thesis using Inl by (simp add: d decompose_Cons)
  next
    case (Inr b)
    then have ok: "(is_number s0 \<and> is_number workers) \<or> (is_str s0 \<and> is_str workers)"
      using py_lt_TypeError_iff[of s0 workers TypeError] by auto
    have "decompose self domain (Some workers) (Some ident) \<noteq> Inl TypeError"
      using Inr split_work_not_TypeError[of s0 workers ident]
      by (cases b; cases "split_work s0 workers ident") (auto simp: d decompose_Cons)
    then show ?thesis using ok by blast
  qed
  show ?thesis
    using v t d split_work_ValueError_iff[of ld workers ident] by simp
qed

theorem decompose_ValueError_iff_witness:
  "[PInt 3] \<noteq> []
   \<and> decompose \<lparr>comm_size = 5, comm_rank = 0\<rparr> [PInt 3] (Some (PInt 5)) (Some (PInt 0))
       = Inl ValueError
   \<and> decompose \<lparr>comm_size = 5, comm_rank = 0\<rparr> [PInt 3] (Some (PStr ''2'')) (Some (PInt 0))
       = Inl TypeError
   \<and> split_work (PInt 8) (PInt 4) (PFloat 3 (- 1)) = Inl ValueError"
proof -
  have h: "[PInt 3] \<noteq> []" by simp
  have lt: "py_lt (PInt 3) (PInt 5) = Inr True" by (simp add: py_lt_def num_lt_def)
  have "decompose \<lparr>comm_size = 5, comm_rank = 0\<rparr> [PInt 3] (Some (PInt 5)) (Some (PInt 0))
          = Inl ValueError"
    using decompose_ValueError_iff[OF h, where self = "\<lparr>comm_size = 5, comm_rank = 0\<rparr>"
        and workers = "PInt 5" and ident = "PInt 0" and ld = "PInt 8"] lt
    by simp
  moreover have "decompose \<lparr>comm_size = 5, comm_rank = 0\<rparr> [PInt 3] (Some (PStr ''2''))
          (Some (PInt 0)) = Inl TypeError"
    using decompose_ValueError_iff[OF h, where self = "\<lparr>comm_size = 5, comm_rank = 0\<rparr>"
        and workers = "PStr ''2''" and ident = "PInt 0" and ld = "PInt 8"]
    by simp
  moreover have "split_work (PInt 8) (PInt 4) (PFloat 3 (- 1)) = Inl ValueError"
    using decompose_ValueError_iff[OF h, where self = "\<lparr>comm_size = 5, comm_rank = 0\<rparr>"
        and workers = "PInt 4" and ident = "PFloat 3 (- 1)" and ld = "PInt 8"]
    by simp
  ultimately show ?thesis by simp
qed

text \<open>
  An \<open>id\<close> outside \<open>[0, workers)\<close> is accepted: worker 7 of 4 is given the range
  \<open>[17, 20)\<close> of a load of 8.
\<close>

theorem decompose_id_out_of_range_counterexample:
  "decompose \<lparr>comm_size = 4, comm_rank = 0\<rparr> [PInt 8] (Some (PInt 4)) (Some (PInt 7))
     = Inr ([PInt 8], [PInt 3], [PInt 17])
   \<and> \<not> ((0::int) \<le> 7 \<and> (7::int) < 4)"
  by code_simp

section \<open>Slab decomposition\<close>

text \<open>
  C4: on a domain of rank at least 1 with \<open>domain[0] \<ge> workers\<close> (the comparison
  \<open>domain[0] < workers\<close> gives \<open>False\<close>), \<open>decompose\<close> splits
  axis 0 only. It raises what \<open>__split_work\<close> raises on \<open>domain[0]\<close>; otherwise it returns
  the domain as sizes, the split of axis 0 as \<open>subsizes[0] = hi - low\<close> and
  \<open>starts[0] = low\<close>, and on every other axis the size as subsize and 0 as start. The
  split returns for every positive number of workers when the load is below 2^53.
\<close>

theorem decompose_splits_axis_0_only:
  assumes "domain \<noteq> []" and "py_lt (domain ! 0) workers = Inr False"
  shows "(case split_work (domain ! 0) workers ident of
            Inl err \<Rightarrow> decompose self domain (Some workers) (Some ident) = Inl err
          | Inr (low, hi) \<Rightarrow>
              (\<exists>subsizes starts.
                 decompose self domain (Some workers) (Some ident) = Inr (domain, subsizes, starts)
                 \<and> length subsizes = length domain \<and> length starts = length domain
                 \<and> subsizes ! 0 = PInt (hi - low) \<and> starts ! 0 = PInt low
                 \<and> (\<forall>k. 0 < k \<and> k < length domain
                        \<longrightarrow> subsizes ! k = domain ! k \<and> starts ! k = PInt 0)))
         \<and> (\<forall>l w i. domain ! 0 = PInt l \<and> workers = PInt w \<and> ident = PInt i
                     \<and> 0 < w \<and> l < 2 ^ 53
               \<longrightarrow> (\<exists>low hi. split_work (domain ! 0) workers ident = Inr (low, hi)))"
proof -
  obtain s0 rest where d: "domain = s0 # rest" using assms(1) by (cases domain) auto
  have nlt: "py_lt s0 workers = Inr False" using assms(2) d by simp
  have 1: "case split_work (domain ! 0) workers ident of
            Inl err \<Rightarrow> decompose self domain (Some workers) (Some ident) = Inl err
          | Inr (low, hi) \<Rightarrow>
              (\<exists>subsizes starts.
                 decompose self domain (Some workers) (Some ident) = Inr (domain, subsizes, starts)
                 \<and> length subsizes = length domain \<and> length starts = length domain
                 \<and> subsizes ! 0 = PInt (hi - low) \<and> starts ! 0 = PInt low
                 \<and> (\<forall>k. 0 < k \<and> k < length domain
                        \<longrightarrow> subsizes ! k = domain ! k \<and> starts ! k = PInt 0))"
    using nlt by (auto simp: decompose_def d Let_def nth_Cons split: sum.splits nat.splits)
  have 2: "\<exists>low hi. split_work (domain ! 0) workers ident = Inr (low, hi)"
    if h: "domain ! 0 = PInt l" "workers = PInt w" "ident = PInt i" "0 < w" "l < 2 ^ 53"
    for l w i
  proof -
    have "\<not> l < w" using nlt h d by (simp add: py_lt_def num_lt_def)
    then have "0 \<le> l" using h(4) by simp
    then show ?thesis using split_work_exact[OF h(4) _ h(5), of i] h by simp
  qed
  show ?thesis using 1 2 by blast
qed

theorem decompose_splits_axis_0_only_witness:
  "[PInt 8, PInt 4, PInt 4] \<noteq> [] \<and> py_lt ([PInt 8, PInt 4, PInt 4] ! 0) (PInt 4) = Inr False
   \<and> decompose \<lparr>comm_size = 4, comm_rank = 2\<rparr> [PInt 8, PInt 4, PInt 4]
         (Some (PInt 4)) (Some (PInt 2))
       = Inr ([PInt 8, PInt 4, PInt 4], [PInt 2, PInt 4, PInt 4], [PInt 4, PInt 0, PInt 0])"
proof -
  have h1: "[PInt 8, PInt 4, PInt 4] \<noteq> []" by simp
  have h2: "py_lt ([PInt 8, PInt 4, PInt 4] ! 0) (PInt 4) = Inr False"
    by (simp add: py_lt_def num_lt_def)
  have sw: "split_work (PInt 8) (PInt 4) (PInt 2) = Inr (4, 6)" by code_simp
  have "\<exists>subsizes starts.
          decompose \<lparr>comm_size = 4, comm_rank = 2\<rparr> [PInt 8, PInt 4, PInt 4]
            (Some (PInt 4)) (Some (PInt 2)) = Inr ([PInt 8, PInt 4, PInt 4], subsizes, starts)
          \<and> length subsizes = length [PInt 8, PInt 4, PInt 4]
          \<and> length starts = length [PInt 8, PInt 4, PInt 4]
          \<and> subsizes ! 0 = PInt (6 - 4) \<and> starts ! 0 = PInt 4
          \<and> (\<forall>k. 0 < k \<and> k < length [PInt 8, PInt 4, PInt 4]
                 \<longrightarrow> subsizes ! k = [PInt 8, PInt 4, PInt 4] ! k \<and> starts ! k = PInt 0)"
    using decompose_splits_axis_0_only[OF h1 h2, where ident = "PInt 2"
        and self = "\<lparr>comm_size = 4, comm_rank = 2\<rparr>"]
    by (simp add: sw)
  then obtain subsizes starts where r:
    "decompose \<lparr>comm_size = 4, comm_rank = 2\<rparr> [PInt 8, PInt 4, PInt 4]
       (Some (PInt 4)) (Some (PInt 2)) = Inr ([PInt 8, PInt 4, PInt 4], subsizes, starts)"
    "length subsizes = 3" "length starts = 3" "subsizes ! 0 = PInt 2" "starts ! 0 = PInt 4"
    "\<forall>k. 0 < k \<and> k < 3 \<longrightarrow> subsizes ! k = [PInt 8, PInt 4, PInt 4] ! k \<and> starts ! k = PInt 0"
    by auto
  have "subsizes ! Suc 0 = PInt 4" "subsizes ! Suc (Suc 0) = PInt 4"
    "starts ! Suc 0 = PInt 0" "starts ! Suc (Suc 0) = PInt 0"
    using r(6) by (simp_all add: numeral_3_eq_3)
  then have "subsizes = [PInt 2, PInt 4, PInt 4]" "starts = [PInt 4, PInt 0, PInt 0]"
    using r(2-5) by (auto simp: list_eq_iff_nth_eq less_Suc_eq numeral_3_eq_3)
  then show ?thesis using r(1) h1 h2 by simp
qed

section \<open>Cartesian decomposition, axis by axis\<close>

text \<open>
  The loop of \<open>Cartesian.decompose\<close> after \<open>n\<close> passes: the first \<open>n\<close> axes hold their
  splits, the others are untouched.
\<close>

lemma decompose_one_axis:
  "decompose self [x] (Some w) (Some i) =
     (case py_lt x w of
        Inl err \<Rightarrow> Inl err
      | Inr True \<Rightarrow> Inl ValueError
      | Inr False \<Rightarrow>
          (case split_work x w i of
             Inl err \<Rightarrow> Inl err
           | Inr (low, hi) \<Rightarrow> Inr ([x], [PInt (hi - low)], [PInt low])))"
  by (simp add: decompose_def Let_def split: sum.splits prod.splits bool.splits)

lemma cart_step_Inr_iff:
  "cart_step self domain d (ss, st) = Inr (ss', st') \<longleftrightarrow>
     d < length domain \<and> d < length (coords self)
     \<and> (\<exists>low hi. py_lt (domain ! d) (PInt (dims self ! d)) = Inr False
           \<and> split_work (domain ! d) (PInt (dims self ! d)) (PInt (coords self ! d)) = Inr (low, hi)
           \<and> ss' = ss[d := PInt (hi - low)] \<and> st' = st[d := PInt low])"
  by (auto simp: cart_step_def decompose_one_axis split: sum.splits prod.splits bool.splits)

lemma cart_loop_append:
  "cart_loop self domain (xs @ ys) acc =
     (case cart_loop self domain xs acc of
        Inl err \<Rightarrow> Inl err
      | Inr acc' \<Rightarrow> cart_loop self domain ys acc')"
  by (induction xs arbitrary: acc) (auto split: sum.splits)

lemma cart_loop_upt:
  assumes "n \<le> length domain" and "n \<le> length (coords self)"
    and "length ss0 = length domain" and "length st0 = length domain"
  shows "cart_loop self domain [0 ..< n] (ss0, st0) = Inr (ss, st) \<longleftrightarrow>
           length ss = length domain \<and> length st = length domain
           \<and> (\<forall>d<n. \<exists>low hi. py_lt (domain ! d) (PInt (dims self ! d)) = Inr False
                  \<and> split_work (domain ! d) (PInt (dims self ! d)) (PInt (coords self ! d))
                      = Inr (low, hi)
                  \<and> ss ! d = PInt (hi - low) \<and> st ! d = PInt low)
           \<and> (\<forall>d. n \<le> d \<and> d < length domain \<longrightarrow> ss ! d = ss0 ! d \<and> st ! d = st0 ! d)"
  using assms
proof (induction n arbitrary: ss st)
  case 0
  then show ?case by (auto simp: list_eq_iff_nth_eq)
next
  case (Suc n)
  let ?R = "\<lambda>n ss st. length ss = length domain \<and> length st = length domain
           \<and> (\<forall>d<n. \<exists>low hi. py_lt (domain ! d) (PInt (dims self ! d)) = Inr False
                  \<and> split_work (domain ! d) (PInt (dims self ! d)) (PInt (coords self ! d))
                      = Inr (low, hi)
                  \<and> ss ! d = PInt (hi - low) \<and> st ! d = PInt low)
           \<and> (\<forall>d. n \<le> d \<and> d < length domain \<longrightarrow> ss ! d = ss0 ! d \<and> st ! d = st0 ! d)"
  have IH: "cart_loop self domain [0 ..< n] (ss0, st0) = Inr (ss', st') \<longleftrightarrow> ?R n ss' st'" for ss' st'
    using Suc by simp
  have n: "n < length domain" "n < length (coords self)" using Suc.prems by simp_all
  have loop: "cart_loop self domain [0 ..< Suc n] (ss0, st0) =
      (case cart_loop self domain [0 ..< n] (ss0, st0) of
         Inl err \<Rightarrow> Inl err
       | Inr acc' \<Rightarrow> cart_step self domain n acc')"
    by (simp add: cart_loop_append split: sum.splits)
  show ?case
  proof
    assume L: "cart_loop self domain [0 ..< Suc n] (ss0, st0) = Inr (ss, st)"
    then obtain ss' st' where p: "cart_loop self domain [0 ..< n] (ss0, st0) = Inr (ss', st')"
      and s: "cart_step self domain n (ss', st') = Inr (ss, st)"
      using L unfolding loop
      by (cases "cart_loop self domain [0 ..< n] (ss0, st0)") (auto simp del: upt_Suc)
    from p have R: "?R n ss' st'" using IH by simp
    from s obtain low hi where a: "py_lt (domain ! n) (PInt (dims self ! n)) = Inr False"
      "split_work (domain ! n) (PInt (dims self ! n)) (PInt (coords self ! n)) = Inr (low, hi)"
      "ss = ss'[n := PInt (hi - low)]" "st = st'[n := PInt low]"
      by (auto simp: cart_step_Inr_iff)
    show "?R (Suc n) ss st"
      using R a n by (auto simp: nth_list_update less_Suc_eq)
  next
    assume R: "?R (Suc n) ss st"
    have "?R n (ss[n := ss0 ! n]) (st[n := st0 ! n])"
      using R n by (auto simp: nth_list_update)
    then have p: "cart_loop self domain [0 ..< n] (ss0, st0) = Inr (ss[n := ss0 ! n], st[n := st0 ! n])"
      using IH by simp
    from R obtain low hi where a: "py_lt (domain ! n) (PInt (dims self ! n)) = Inr False"
      "split_work (domain ! n) (PInt (dims self ! n)) (PInt (coords self ! n)) = Inr (low, hi)"
      "ss ! n = PInt (hi - low)" "st ! n = PInt low"
      by auto
    have "ss = (ss[n := ss0 ! n])[n := PInt (hi - low)]" "st = (st[n := st0 ! n])[n := PInt low]"
      using a(3,4) list_update_id[of ss n] list_update_id[of st n] by simp_all
    then have "cart_step self domain n (ss[n := ss0 ! n], st[n := st0 ! n]) = Inr (ss, st)"
      using a(1,2) n unfolding cart_step_Inr_iff by blast
    then show "cart_loop self domain [0 ..< Suc n] (ss0, st0) = Inr (ss, st)"
      unfolding loop using p by (simp del: upt_Suc)
  qed
qed

text \<open>The whole loop, from the initial \<open>subsizes = domain\<close> and \<open>starts = [0, ...]\<close>.\<close>

lemma Cartesian_decompose_iff:
  assumes "length (dims self) \<le> length domain" and "length (coords self) = length (dims self)"
  shows "Cartesian_decompose self domain = Inr (sizes, subsizes, starts) \<longleftrightarrow>
           sizes = domain \<and> length subsizes = length domain \<and> length starts = length domain
           \<and> (\<forall>d<length (dims self). \<exists>low hi.
                  py_lt (domain ! d) (PInt (dims self ! d)) = Inr False
                  \<and> split_work (domain ! d) (PInt (dims self ! d)) (PInt (coords self ! d))
                      = Inr (low, hi)
                  \<and> subsizes ! d = PInt (hi - low) \<and> starts ! d = PInt low)
           \<and> (\<forall>d. length (dims self) \<le> d \<and> d < length domain
                  \<longrightarrow> subsizes ! d = domain ! d \<and> starts ! d = PInt 0)"
proof -
  have "Cartesian_decompose self domain = Inr (sizes, subsizes, starts) \<longleftrightarrow>
          sizes = domain \<and> cart_loop self domain [0 ..< length (dims self)]
            (domain, replicate (length domain) (PInt 0)) = Inr (subsizes, starts)"
    by (auto simp: Cartesian_decompose_def Let_def split: sum.splits)
  also have "\<dots> \<longleftrightarrow> sizes = domain \<and> length subsizes = length domain \<and> length starts = length domain
           \<and> (\<forall>d<length (dims self). \<exists>low hi.
                  py_lt (domain ! d) (PInt (dims self ! d)) = Inr False
                  \<and> split_work (domain ! d) (PInt (dims self ! d)) (PInt (coords self ! d))
                      = Inr (low, hi)
                  \<and> subsizes ! d = PInt (hi - low) \<and> starts ! d = PInt low)
           \<and> (\<forall>d. length (dims self) \<le> d \<and> d < length domain
                  \<longrightarrow> subsizes ! d = domain ! d \<and> starts ! d = PInt 0)"
    using cart_loop_upt[of "length (dims self)" domain self domain
        "replicate (length domain) (PInt 0)" subsizes starts] assms
    by auto
  finally show ?thesis .
qed

text \<open>
  C5: on a domain whose rank is at least the grid rank, \<open>Cartesian.decompose\<close> returns
  exactly when on every grid axis \<open>d\<close> the comparison \<open>domain[d] < dims[d]\<close> gives \<open>False\<close>
  and the split returns, with \<open>workers = dims[d]\<close> and \<open>id = coords[d]\<close>; then axis \<open>d\<close> of the result holds that split and the axes beyond
  the grid rank keep their size and start at 0. On a 2 x 2 grid and the domain \<open>[8, 8]\<close>
  the four workers get the 4 x 4 bricks starting at (0,0), (0,4), (4,0) and (4,4), which
  together hold 64 cells and cover every cell of the array exactly once.
\<close>

theorem Cartesian_decompose_per_axis:
  assumes "length (dims self) \<le> length domain" and "length (coords self) = length (dims self)"
  shows "(Cartesian_decompose self domain = Inr (sizes, subsizes, starts) \<longleftrightarrow>
           sizes = domain \<and> length subsizes = length domain \<and> length starts = length domain
           \<and> (\<forall>d<length (dims self). \<exists>low hi.
                  py_lt (domain ! d) (PInt (dims self ! d)) = Inr False
                  \<and> split_work (domain ! d) (PInt (dims self ! d)) (PInt (coords self ! d))
                      = Inr (low, hi)
                  \<and> subsizes ! d = PInt (hi - low) \<and> starts ! d = PInt low)
           \<and> (\<forall>d. length (dims self) \<le> d \<and> d < length domain
                  \<longrightarrow> subsizes ! d = domain ! d \<and> starts ! d = PInt 0))
         \<and> map (\<lambda>c. Cartesian_decompose (grid2x2 c) [PInt 8, PInt 8])
               [[0, 0], [0, 1], [1, 0], [1, 1]] =
             [Inr ([PInt 8, PInt 8], [PInt 4, PInt 4], [PInt 0, PInt 0]),
              Inr ([PInt 8, PInt 8], [PInt 4, PInt 4], [PInt 0, PInt 4]),
              Inr ([PInt 8, PInt 8], [PInt 4, PInt 4], [PInt 4, PInt 0]),
              Inr ([PInt 8, PInt 8], [PInt 4, PInt 4], [PInt 4, PInt 4])]
         \<and> (let cells = concat (map (\<lambda>c. brick_of (Cartesian_decompose (grid2x2 c) [PInt 8, PInt 8]))
                                   [[0, 0], [0, 1], [1, 0], [1, 1]])
            in length cells = 64
               \<and> list_all (\<lambda>p. count_list cells p = 1) (brick_cells [8, 8] [0, 0]))"
proof -
  have bricks: "map (\<lambda>c. Cartesian_decompose (grid2x2 c) [PInt 8, PInt 8])
               [[0, 0], [0, 1], [1, 0], [1, 1]] =
             [Inr ([PInt 8, PInt 8], [PInt 4, PInt 4], [PInt 0, PInt 0]),
              Inr ([PInt 8, PInt 8], [PInt 4, PInt 4], [PInt 0, PInt 4]),
              Inr ([PInt 8, PInt 8], [PInt 4, PInt 4], [PInt 4, PInt 0]),
              Inr ([PInt 8, PInt 8], [PInt 4, PInt 4], [PInt 4, PInt 4])]"
    by code_simp
  have cover: "let cells = concat (map (\<lambda>c. brick_of (Cartesian_decompose (grid2x2 c) [PInt 8, PInt 8]))
                                   [[0, 0], [0, 1], [1, 0], [1, 1]])
            in length cells = 64
               \<and> list_all (\<lambda>p. count_list cells p = 1) (brick_cells [8, 8] [0, 0])"
    by code_simp
  show ?thesis
    using Cartesian_decompose_iff[OF assms, of sizes subsizes starts] bricks cover by blast
qed

theorem Cartesian_decompose_per_axis_witness:
  "length (dims (grid2x2 [1, 0])) \<le> length [PInt 8, PInt 8]
   \<and> length (coords (grid2x2 [1, 0])) = length (dims (grid2x2 [1, 0]))
   \<and> Cartesian_decompose (grid2x2 [1, 0]) [PInt 8, PInt 8]
       = Inr ([PInt 8, PInt 8], [PInt 4, PInt 4], [PInt 4, PInt 0])"
proof -
  have h1: "length (dims (grid2x2 [1, 0])) \<le> length [PInt 8, PInt 8]"
    by (simp add: grid2x2_def)
  have h2: "length (coords (grid2x2 [1, 0])) = length (dims (grid2x2 [1, 0]))"
    by (simp add: grid2x2_def)
  have lt: "py_lt (PInt 8) (PInt 2) = Inr False" by (simp add: py_lt_def num_lt_def)
  have s0: "split_work (PInt 8) (PInt 2) (PInt 1) = Inr (4, 8)" by code_simp
  have s1: "split_work (PInt 8) (PInt 2) (PInt 0) = Inr (0, 4)" by code_simp
  have "Cartesian_decompose (grid2x2 [1, 0]) [PInt 8, PInt 8]
          = Inr ([PInt 8, PInt 8], [PInt 4, PInt 4], [PInt 4, PInt 0])"
    using Cartesian_decompose_per_axis[OF h1 h2, of "[PInt 8, PInt 8]" "[PInt 4, PInt 4]"
        "[PInt 4, PInt 0]"] lt s0 s1
    by (simp add: grid2x2_def less_Suc_eq numeral_2_eq_2 all_conj_distrib)
  then show ?thesis using h1 h2 by simp
qed

section \<open>Loading with another order\<close>

text \<open>
  C6, as the source has it: for an order whose upper-case form is not \<open>C\<close>, \<open>load\<close>
  raises and returns no array, and the only MPI call it makes is the read-only open of
  the file, made first when no handle is open. When the open, the decomposition and the
  element-type mapping succeed, the exception is the \<open>ValueError\<close> of the order check.
\<close>

theorem load_other_order_fails:
  assumes "upper order \<noteq> ''C''"
  shows "\<exists>err self'.
           load MPI self domain dtype order header_offset = (Inl err, self')
           \<and> (if handler self = None
                then calls self' = calls self @ [File_Open (filename self) (MODE_RDONLY MPI)]
                else self' = self)
           \<and> ((handler self \<noteq> None \<or> call_ok MPI (File_Open (filename self) (MODE_RDONLY MPI)))
                \<and> (\<exists>r. decomp_decompose (decomposition self) domain = Inr r)
                \<and> (\<exists>t m. dtype = Numpy_dtype t \<and> dtype_to_mpi MPI t = Inr m)
               \<longrightarrow> err = ValueError)"
proof (cases "handler self = None")
  case True
  have chk: "check_file_mode MPI (MODE_RDONLY MPI) = Inr (MODE_RDONLY MPI)"
    by (simp add: check_file_mode_def switcher_def)
  show ?thesis
    using True assms
    by (auto simp: load_def file_open_def chk issue_def split: sum.splits prod.splits pytype.splits)
next
  case False
  then show ?thesis
    using assms
    by (auto simp: load_def split: sum.splits prod.splits pytype.splits)
qed

theorem load_other_order_fails_witness:
  "upper ''F'' \<noteq> ''C''
   \<and> (\<exists>err self'.
         load mpich channel0 [PInt 8] (Numpy_dtype CHR ''d'') ''F'' 128 = (Inl err, self')
         \<and> calls self' = [File_Open ''data.npy'' 2])"
proof -
  have h: "upper ''F'' \<noteq> ''C''" by (simp add: upper_def upper_char_def)
  show ?thesis
    using h load_other_order_fails[OF h, of mpich channel0 "[PInt 8]" "Numpy_dtype CHR ''d''" 128]
    by (auto simp: channel0_def mpich_def)
qed

text \<open>
  With the order \<open>F\<close> on a channel with no open handle, the file is opened before the
  order is looked at, and the exception is \<open>ValueError\<close>, not \<open>NotImplementedError\<close>.
\<close>

theorem load_order_F_counterexample:
  "load mpich channel0 [PInt 8] (Numpy_dtype CHR ''d'') ''F'' 128 =
     (Inl ValueError,
      channel0\<lparr>handler := Some (''data.npy'', 2), calls := [File_Open ''data.npy'' 2]\<rparr>)"
  by code_simp

text \<open>The lower-case flag \<open>c\<close> is row-major too: \<open>load\<close> goes through and reads.\<close>

lemma load_lower_case_c_accepted:
  "load mpich channel0 [PInt 8] (Numpy_dtype CHR ''d'') ''c'' 128 =
     (Inr \<lparr>shape = [PInt 4], elem_type = Numpy_dtype CHR ''d'', mem_order = ''C''\<rparr>,
      channel0\<lparr>handler := Some (''data.npy'', 2),
        calls := [File_Open ''data.npy'' 2,
                  Create_subarray ''MPI_DOUBLE'' [PInt 8] [PInt 4] [PInt 0] 56,
                  Commit, Get_position (''data.npy'', 2), Set_view 128 ''MPI_DOUBLE'',
                  Read_all]\<rparr>)"
  by code_simp

section \<open>Saving\<close>

text \<open>
  C7: \<open>save\<close> raises \<open>NotImplementedError\<close> for every array and header and leaves the
  channel as it was: no MPI call is made, so the file is neither created nor modified.
\<close>

theorem save_not_implemented:
  "save self array header = (Inl NotImplementedError, self)"
  by (simp add: save_def)

section \<open>Access modes\<close>

text \<open>A listed mode passes the check; any other value is refused before the open.\<close>

lemma check_file_mode_listed:
  assumes "mode \<in> {MODE_RDONLY MPI, MODE_RDWR MPI, MODE_WRONLY MPI, MODE_CREATE MPI,
                    MODE_EXCL MPI, MODE_DELETE_ON_CLOSE MPI, MODE_UNIQUE_OPEN MPI,
                    MODE_SEQUENTIAL MPI, MODE_APPEND MPI}"
  shows "check_file_mode MPI mode = Inr mode"
  using assms by (auto simp: check_file_mode_def switcher_def)

lemma file_open_unlisted:
  assumes "mode \<notin> {MODE_RDONLY MPI, MODE_RDWR MPI, MODE_WRONLY MPI, MODE_CREATE MPI,
                    MODE_EXCL MPI, MODE_DELETE_ON_CLOSE MPI, MODE_UNIQUE_OPEN MPI,
                    MODE_SEQUENTIAL MPI, MODE_APPEND MPI}"
  shows "file_open MPI self mode = (Inl ValueError, self)"
  using assms by (auto simp: file_open_def check_file_mode_def switcher_def)

text \<open>
  C8: every listed mode and every combination of listed modes passes the check. The
  combination \<open>MODE_CREATE | MODE_WRONLY\<close>, which \<open>save\<close> of \<open>lyncs_io/numpy.py\<close> passes
  to \<open>file_open\<close>, is no key of the dictionary: \<open>file_open\<close> raises \<open>ValueError\<close> and
  opens nothing.
\<close>

theorem file_open_create_wronly_rejected:
  "file_open mpich channel0 (MODE_CREATE mpich OR MODE_WRONLY mpich) = (Inl ValueError, channel0)"
  by (simp add: file_open_def check_file_mode_def switcher_def mpich_def)

section \<open>Default workers and id\<close>

text \<open>
  C10: when \<open>workers\<close> or \<open>id\<close> is omitted, \<open>decompose\<close> uses the communicator's size
  and the caller's rank for both, so that an argument given alone is ignored. On rank 2
  of 4 processes and the domain \<open>[8, 4, 4]\<close>, \<open>id = 0\<close> given alone, \<open>workers = 2\<close> given
  alone and no argument all give the slab of worker 2 of 4, rows 4 and 5, where
  \<open>workers = 2\<close> and \<open>id = 0\<close> given together give rows 0 to 3.
\<close>

theorem decompose_defaults_both:
  "decompose self domain None ident =
     decompose self domain (Some (PInt (comm_size self))) (Some (PInt (comm_rank self)))
   \<and> decompose self domain workers None =
     decompose self domain (Some (PInt (comm_size self))) (Some (PInt (comm_rank self)))
   \<and> decompose \<lparr>comm_size = 4, comm_rank = 2\<rparr> [PInt 8, PInt 4, PInt 4] None (Some (PInt 0))
       = Inr ([PInt 8, PInt 4, PInt 4], [PInt 2, PInt 4, PInt 4], [PInt 4, PInt 0, PInt 0])
   \<and> decompose \<lparr>comm_size = 4, comm_rank = 2\<rparr> [PInt 8, PInt 4, PInt 4] (Some (PInt 2)) None
       = Inr ([PInt 8, PInt 4, PInt 4], [PInt 2, PInt 4, PInt 4], [PInt 4, PInt 0, PInt 0])
   \<and> decompose \<lparr>comm_size = 4, comm_rank = 2\<rparr> [PInt 8, PInt 4, PInt 4] None None
       = Inr ([PInt 8, PInt 4, PInt 4], [PInt 2, PInt 4, PInt 4], [PInt 4, PInt 0, PInt 0])
   \<and> decompose \<lparr>comm_size = 4, comm_rank = 2\<rparr> [PInt 8, PInt 4, PInt 4]
         (Some (PInt 2)) (Some (PInt 0))
       = Inr ([PInt 8, PInt 4, PInt 4], [PInt 4, PInt 4, PInt 4], [PInt 0, PInt 0, PInt 0])"
proof -
  have general: "decompose self domain None ident =
     decompose self domain (Some (PInt (comm_size self))) (Some (PInt (comm_rank self)))
   \<and> decompose self domain workers None =
     decompose self domain (Some (PInt (comm_size self))) (Some (PInt (comm_rank self)))"
    by (simp add: decompose_def split: option.splits)
  have alone_id:
    "decompose \<lparr>comm_size = 4, comm_rank = 2\<rparr> [PInt 8, PInt 4, PInt 4] None (Some (PInt 0))
       = Inr ([PInt 8, PInt 4, PInt 4], [PInt 2, PInt 4, PInt 4], [PInt 4, PInt 0, PInt 0])"
    by code_simp
  have alone_workers:
    "decompose \<lparr>comm_size = 4, comm_rank = 2\<rparr> [PInt 8, PInt 4, PInt 4] (Some (PInt 2)) None
       = Inr ([PInt 8, PInt 4, PInt 4], [PInt 2, PInt 4, PInt 4], [PInt 4, PInt 0, PInt 0])"
    by code_simp
  have neither:
    "decompose \<lparr>comm_size = 4, comm_rank = 2\<rparr> [PInt 8, PInt 4, PInt 4] None None
       = Inr ([PInt 8, PInt 4, PInt 4], [PInt 2, PInt 4, PInt 4], [PInt 4, PInt 0, PInt 0])"
    by code_simp
  have both:
    "decompose \<lparr>comm_size = 4, comm_rank = 2\<rparr> [PInt 8, PInt 4, PInt 4]
         (Some (PInt 2)) (Some (PInt 0))
       = Inr ([PInt 8, PInt 4, PInt 4], [PInt 4, PInt 4, PInt 4], [PInt 0, PInt 0, PInt 0])"
    by code_simp
  show ?thesis using general alone_id alone_workers neither both by blast
qed

end
